theory Spec2Isabelle
  imports Main
begin

section \<open>The registry of pubsub.go\<close>

text \<open>
  \<^verbatim>\<open>type PubSub[K comparable, T any] struct {
      mu          sync.RWMutex
      subscribers map[K]map[chan T]struct{}
  }\<close>
  The outer Go map is a partial function from keys to subscriber sets; the inner
  \<^verbatim>\<open>map[chan T]struct{}\<close> is a set of channels (a Go map holds each key at most once).
  Every inner map is made by \<^verbatim>\<open>Subscribe\<close> for one key and is reachable through that key
  only, so the in-place \<^verbatim>\<open>delete(subs, ch)\<close> is an update of that key's entry.
  The lock \<^verbatim>\<open>mu\<close> has no sequential content and is left out. Keys are compared with
  HOL equality, channels are identified by a value of type \<open>'c\<close>.
\<close>

record ('k, 'c) PubSub =
  subscribers :: "'k \<rightharpoonup> 'c set"

definition New :: "('k, 'c) PubSub" where
  "New = \<lparr>subscribers = Map.empty\<rparr>"

text \<open>
  \<^verbatim>\<open>for _, key := range keys {
      if _, exists := ps.subscribers[key]; !exists {
          ps.subscribers[key] = make(map[chan T]struct{})
      }
      ps.subscribers[key][ch] = struct{}{}
  }\<close>
  The second statement reads the entry that the first one has just ensured; the
  \<open>None\<close> branch of its lookup (Go: assignment into a nil map) is never taken.
\<close>

fun Subscribe :: "'k list \<Rightarrow> 'c \<Rightarrow> ('k, 'c) PubSub \<Rightarrow> ('k, 'c) PubSub" where
  "Subscribe [] ch ps = ps"
| "Subscribe (key # keys) ch ps =
     (let m = subscribers ps;
          m1 = (if m key = None then m(key \<mapsto> {}) else m);
          m2 = m1(key \<mapsto> insert ch (case m1 key of Some subs \<Rightarrow> subs | None \<Rightarrow> {}))
      in Subscribe keys ch (ps\<lparr>subscribers := m2\<rparr>))"


text \<open>The endpoints subscribed to a key: the key's set, empty for a key without entry.\<close>

definition subs_of :: "('k, 'c) PubSub \<Rightarrow> 'k \<Rightarrow> 'c set" where
  "subs_of ps key = (case subscribers ps key of None \<Rightarrow> {} | Some subs \<Rightarrow> subs)"


section \<open>Channels, contexts and the select statement\<close>

text \<open>
  \<^verbatim>\<open>Publish\<close> talks to its environment through one statement,
  \<^verbatim>\<open>select { case ch <- msg: ...; case <-ctx.Done(): ... }\<close>.
  The environment is described over a logical clock (integer ticks):
  \<^item> a channel, at an instant, lets a send proceed (\<open>Ready\<close>: a receiver waits or the
    buffer has room), does not (\<open>Blocked\<close>; a nil channel is blocked for ever), or is
    closed (a send on it panics);
  \<^item> a context either never closes its \<^verbatim>\<open>Done\<close> channel, or closes it at one instant
    and from then on \<^verbatim>\<open>Err()\<close> is \<^verbatim>\<open>Canceled\<close> or \<^verbatim>\<open>DeadlineExceeded\<close> (the
    contract of \<^verbatim>\<open>context.Context\<close>);
  \<^item> the order in which \<^verbatim>\<open>range\<close> visits a map, and the case \<^verbatim>\<open>select\<close> picks when
    both can proceed, are choices of the Go runtime.
\<close>

type_synonym time = int

datatype send_state = Ready | Blocked | Closed

datatype ctx_error = Canceled | DeadlineExceeded

datatype "context" = NeverDone | DoneAt time ctx_error

fun ctx_Err :: "context \<Rightarrow> time \<Rightarrow> ctx_error option" where
  "ctx_Err NeverDone t = None"
| "ctx_Err (DoneAt fire e) t = (if fire \<le> t then Some e else None)"

record 'c runtime =
  chan_state :: "'c \<Rightarrow> time \<Rightarrow> send_state"
  pick_send :: "'c \<Rightarrow> bool"
  range_order :: "'c set \<Rightarrow> 'c list"

text \<open>The runtime visits every element of the ranged set once, in some order.\<close>

definition visits_once :: "'c runtime \<Rightarrow> 'c set \<Rightarrow> bool" where
  "visits_once rt subs = (distinct (range_order rt subs) \<and> set (range_order rt subs) = subs)"

text \<open>
  A goroutine blocked in \<^verbatim>\<open>select\<close> sleeps until one of its cases can proceed. The
  result \<open>None\<close> is a goroutine that sleeps for ever.
\<close>

partial_function (option) wait_select :: "(time \<Rightarrow> bool) \<Rightarrow> time \<Rightarrow> time option" where
  "wait_select can_proceed t =
     (if can_proceed t then Some t else wait_select can_proceed (t + 1))"

declare wait_select.simps [code]

datatype select_case = Sent | Done ctx_error | SendOnClosed

text \<open>
  The case a select takes at an instant, from what the channel and the context allow
  there and the runtime's pick: with one case able to proceed that case is taken; with
  both, the runtime picks (Go: "a single one that can proceed is chosen via a uniform
  pseudo-random selection"); with none, the select does not proceed (\<open>None\<close>). A send
  that proceeds on a closed channel panics.
\<close>

fun select_case_at :: "send_state \<Rightarrow> ctx_error option \<Rightarrow> bool \<Rightarrow> select_case option" where
  "select_case_at Blocked None pick = None"
| "select_case_at Ready None pick = Some Sent"
| "select_case_at Closed None pick = Some SendOnClosed"
| "select_case_at Blocked (Some e) pick = Some (Done e)"
| "select_case_at Ready (Some e) pick = Some (if pick then Sent else Done e)"
| "select_case_at Closed (Some e) pick = Some (if pick then SendOnClosed else Done e)"

text \<open>
  \<^verbatim>\<open>select {
  case ch <- msg:
  case <-ctx.Done():
  }\<close>
  entered at instant \<open>t0\<close>: the goroutine sleeps until the first instant at which a case
  can proceed; the result is that instant and the case taken. A case that can proceed
  on entry is taken at once: the clock advances only while the goroutine sleeps.
\<close>

definition select_send ::
  "'c runtime \<Rightarrow> context \<Rightarrow> 'c \<Rightarrow> time \<Rightarrow> (time \<times> select_case) option" where
  "select_send rt ctx ch t0 =
     (case wait_select (\<lambda>t. chan_state rt ch t \<noteq> Blocked \<or> ctx_Err ctx t \<noteq> None) t0 of
        None \<Rightarrow> None
      | Some t \<Rightarrow>
          (case select_case_at (chan_state rt ch t) (ctx_Err ctx t) (pick_send rt ch) of
             None \<Rightarrow> None
           | Some c \<Rightarrow> Some (t, c)))"

section \<open>Publish\<close>

text \<open>
  The state a call runs in: the registry, what every endpoint has accepted so far, and
  the clock. A call returns its values or panics (send on a closed channel); a call that
  blocks for ever has no result (\<open>None\<close>).
\<close>

record ('k, 'c, 'm) world =
  registry :: "('k, 'c) PubSub"
  received :: "'c \<Rightarrow> 'm list"
  now :: time

datatype 'a outcome = Returns 'a | Panics

text \<open>
  \<^verbatim>\<open>var delivered int
  for ch := range subs {
      select {
      case ch <- msg:
          delivered++
      case <-ctx.Done():
          return delivered, ctx.Err()
      }
  }
  return delivered, nil\<close>
  The counter is a natural number (it counts up from 0 and is bounded by the size of a
  map in memory).
\<close>

fun publish_loop ::
  "'c runtime \<Rightarrow> context \<Rightarrow> 'm \<Rightarrow> 'c list \<Rightarrow> nat \<Rightarrow> ('k, 'c, 'm) world \<Rightarrow>
   (('k, 'c, 'm) world \<times> (nat \<times> ctx_error option) outcome) option" where
  "publish_loop rt ctx msg [] delivered w = Some (w, Returns (delivered, None))"
| "publish_loop rt ctx msg (ch # rest) delivered w =
     (case select_send rt ctx ch (now w) of
        None \<Rightarrow> None
      | Some (t, Sent) \<Rightarrow>
          publish_loop rt ctx msg rest (delivered + 1)
            (w\<lparr>received := (received w)(ch := received w ch @ [msg]), now := t\<rparr>)
      | Some (t, Done e) \<Rightarrow> Some (w\<lparr>now := t\<rparr>, Returns (delivered, Some e))
      | Some (t, SendOnClosed) \<Rightarrow> Some (w\<lparr>now := t\<rparr>, Panics))"

text \<open>
  \<^verbatim>\<open>subs, exists := ps.subscribers[key]
  if !exists {
      return 0, nil
  }\<close>
  followed by the loop.
\<close>

definition Publish ::
  "'c runtime \<Rightarrow> context \<Rightarrow> 'k \<Rightarrow> 'm \<Rightarrow> ('k, 'c, 'm) world \<Rightarrow>
   (('k, 'c, 'm) world \<times> (nat \<times> ctx_error option) outcome) option" where
  "Publish rt ctx key msg w =
     (case subscribers (registry w) key of
        None \<Rightarrow> Some (w, Returns (0, None))
      | Some subs \<Rightarrow> publish_loop rt ctx msg (range_order rt subs) 0 w)"

text \<open>
  \<^verbatim>\<open>ctx, cancel := context.WithTimeout(context.Background(), timeout)
  defer cancel()
  return ps.Publish(ctx, key, msg)\<close>
  Package context: \<^verbatim>\<open>Background\<close> is never cancelled; \<^verbatim>\<open>WithTimeout(parent, d)\<close> is
  \<^verbatim>\<open>WithDeadline(parent, time.Now().Add(d))\<close>, whose \<^verbatim>\<open>Done\<close> channel is closed when the
  deadline expires or the parent's \<^verbatim>\<open>Done\<close> channel is closed, whichever happens first.
  A \<^verbatim>\<open>time.Duration\<close> is a signed number of ticks. The deferred \<^verbatim>\<open>cancel()\<close> runs
  after the results of \<^verbatim>\<open>Publish\<close> are fixed and acts on the local context only.
\<close>

definition Background :: "context" where
  "Background = NeverDone"

fun WithDeadline :: "context \<Rightarrow> time \<Rightarrow> context" where
  "WithDeadline NeverDone d = DoneAt d DeadlineExceeded"
| "WithDeadline (DoneAt fire e) d =
     (if fire \<le> d then DoneAt fire e else DoneAt d DeadlineExceeded)"

definition WithTimeout :: "context \<Rightarrow> time \<Rightarrow> int \<Rightarrow> context" where
  "WithTimeout parent time_Now timeout = WithDeadline parent (time_Now + timeout)"

definition PublishWithTimeout ::
  "'c runtime \<Rightarrow> 'k \<Rightarrow> 'm \<Rightarrow> int \<Rightarrow> ('k, 'c, 'm) world \<Rightarrow>
   (('k, 'c, 'm) world \<times> (nat \<times> ctx_error option) outcome) option" where
  "PublishWithTimeout rt key msg timeout w =
     (let ctx = WithTimeout Background (now w) timeout
      in Publish rt ctx key msg w)"

text \<open>
  The spec's words for the same call: a cancellation that fires once the duration has
  elapsed from the start of the call.
\<close>

definition fires_after :: "time \<Rightarrow> int \<Rightarrow> context" where
  "fires_after start duration = DoneAt (start + duration) DeadlineExceeded"

text \<open>
  What the endpoints have accepted after the message went to each channel of a list.
\<close>

fun deliver :: "'m \<Rightarrow> 'c list \<Rightarrow> ('c \<Rightarrow> 'm list) \<Rightarrow> ('c \<Rightarrow> 'm list)" where
  "deliver msg [] r = r"
| "deliver msg (ch # rest) r = deliver msg rest (r(ch := r ch @ [msg]))"

section \<open>An example scenario\<close>

text \<open>
  The scenario of the README and of the spec's section 8: channel 1 is subscribed to
  \<open>topic1\<close> and \<open>topic2\<close>, channel 2 to \<open>topic1\<close>; nothing has been received yet and
  the clock stands at 0. In \<open>ready_runtime\<close> both channels are buffered with room (a
  send can always proceed) and select prefers the send; in \<open>unread_runtime\<close> channel 1
  is read and channel 2 is unbuffered with no reader.
\<close>

definition example_registry :: "(string, nat) PubSub" where
  "example_registry = Subscribe [''topic1''] 2 (Subscribe [''topic1'', ''topic2''] 1 New)"

definition example_world :: "(string, nat, string) world" where
  "example_world = \<lparr>registry = example_registry, received = (\<lambda>ch. []), now = 0\<rparr>"

definition ready_runtime :: "nat runtime" where
  "ready_runtime =
     \<lparr>chan_state = (\<lambda>ch t. Ready), pick_send = (\<lambda>ch. True), range_order = (\<lambda>subs. [1, 2])\<rparr>"

definition unread_runtime :: "nat runtime" where
  "unread_runtime =
     \<lparr>chan_state = (\<lambda>ch t. if ch = 1 then Ready else Blocked),
      pick_send = (\<lambda>ch. True), range_order = (\<lambda>subs. [1, 2])\<rparr>"

section \<open>Subscribe and Unsubscribe, key by key\<close>









section \<open>The select statement and the delivery loop\<close>

lemma wait_select_now: "can_proceed t \<Longrightarrow> wait_select can_proceed t = Some t"
  by (subst wait_select.simps) simp

lemma wait_select_first:
  assumes "t \<le> t'" and "can_proceed t'"
    and "\<And>u. t \<le> u \<Longrightarrow> u < t' \<Longrightarrow> \<not> can_proceed u"
  shows "wait_select can_proceed t = Some t'"
  using assms
proof (induction "nat (t' - t)" arbitrary: t)
  case 0
  then have "t = t'" by simp
  with \<open>can_proceed t'\<close> show ?case by (simp add: wait_select_now)
next
  case (Suc n)
  then have lt: "t < t'" by linarith
  with Suc.prems have "\<not> can_proceed t" by simp
  then have "wait_select can_proceed t = wait_select can_proceed (t + 1)"
    by (subst wait_select.simps) simp
  also have "\<dots> = Some t'"
  proof (rule Suc.hyps(1))
    show "n = nat (t' - (t + 1))" using Suc.hyps(2) by linarith
    show "t + 1 \<le> t'" using lt by simp
    show "can_proceed t'" by fact
    show "\<And>u. t + 1 \<le> u \<Longrightarrow> u < t' \<Longrightarrow> \<not> can_proceed u"
      using Suc.prems(3) by simp
  qed
  finally show ?case .
qed

lemma deliver_distinct:
  "distinct xs \<Longrightarrow> deliver msg xs r ch = r ch @ (if ch \<in> set xs then [msg] else [])"
  by (induction xs arbitrary: r) auto

lemma select_send_ready:
  assumes "chan_state rt ch t = Ready" and "ctx_Err ctx t = None"
  shows "select_send rt ctx ch t = Some (t, Sent)"
  using assms by (simp add: select_send_def wait_select_now)

lemma select_send_done:
  assumes "\<And>t. t0 \<le> t \<Longrightarrow> t \<le> max fire t0 \<Longrightarrow> chan_state rt ch t = Blocked"
  shows "select_send rt (DoneAt fire e) ch t0 = Some (max fire t0, Done e)"
proof -
  let ?P = "\<lambda>t. chan_state rt ch t \<noteq> Blocked \<or> ctx_Err (DoneAt fire e) t \<noteq> None"
  have "wait_select ?P t0 = Some (max fire t0)"
  proof (rule wait_select_first)
    show "t0 \<le> max fire t0" by simp
    show "?P (max fire t0)" by simp
    show "\<not> ?P u" if "t0 \<le> u" "u < max fire t0" for u
      using that assms [of u] by auto
  qed
  moreover have "chan_state rt ch (max fire t0) = Blocked"
    using assms [of "max fire t0"] by simp
  ultimately show ?thesis by (simp add: select_send_def)
qed

lemma publish_loop_ready_prefix:
  assumes "\<forall>ch\<in>set pre. chan_state rt ch (now w) = Ready" 
    and "pre \<noteq> [] \<longrightarrow> ctx_Err ctx (now w) = None"
  shows "publish_loop rt ctx msg (pre @ rest) delivered w =
         publish_loop rt ctx msg rest (delivered + length pre)
           (w\<lparr>received := deliver msg pre (received w)\<rparr>)"
  using assms
proof (induction pre arbitrary: delivered w)
  case Nil
  show ?case by simp
next
  case (Cons ch pre)
  then have sel: "select_send rt ctx ch (now w) = Some (now w, Sent)"
    by (simp add: select_send_ready)
  let ?w1 = "w\<lparr>received := (received w)(ch := received w ch @ [msg])\<rparr>"
  have "publish_loop rt ctx msg ((ch # pre) @ rest) delivered w =
        publish_loop rt ctx msg (pre @ rest) (delivered + 1) ?w1"
    by (simp add: sel)
  also have "\<dots> = publish_loop rt ctx msg rest (delivered + 1 + length pre)
           (?w1\<lparr>received := deliver msg pre (received ?w1)\<rparr>)"
    by (rule Cons.IH) (use Cons.prems in simp_all)
  finally show ?case by simp
qed

lemma publish_loop_registry:
  "publish_loop rt ctx msg xs delivered w = Some (w', r) \<Longrightarrow> registry w' = registry w"
proof (induction xs arbitrary: delivered w)
  case Nil
  then show ?case by simp
next
  case (Cons ch xs)
  show ?case
  proof (cases "select_send rt ctx ch (now w)")
    case None
    with Cons.prems show ?thesis by simp
  next
    case (Some p)
    obtain t c where p: "p = (t, c)" by (cases p)
    show ?thesis
    proof (cases c)
      case Sent
      with Cons.prems Some p have "registry w' =
        registry (w\<lparr>received := (received w)(ch := received w ch @ [msg]), now := t\<rparr>)"
        by (intro Cons.IH [of "delivered + 1"]) simp
      then show ?thesis by simp
    next
      case (Done e)
      with Cons.prems Some p show ?thesis by auto
    next
      case SendOnClosed
      with Cons.prems Some p show ?thesis by auto
    qed
  qed
qed

lemma publish_loop_count:
  "publish_loop rt ctx msg xs delivered w = Some (w', Returns (n, err)) \<Longrightarrow>
   (err = None \<and> n = delivered + length xs) \<or> (err \<noteq> None \<and> delivered \<le> n \<and> n < delivered + length xs)"
proof (induction xs arbitrary: delivered w)
  case Nil
  then show ?case by simp
next
  case (Cons ch xs)
  show ?case
  proof (cases "select_send rt ctx ch (now w)")
    case None
    with Cons.prems show ?thesis by simp
  next
    case (Some p)
    obtain t c where p: "p = (t, c)" by (cases p)
    show ?thesis
    proof (cases c)
      case Sent
      with Cons.prems Some p have "publish_loop rt ctx msg xs (delivered + 1)
        (w\<lparr>received := (received w)(ch := received w ch @ [msg]), now := t\<rparr>) = Some (w', Returns (n, err))"
        by simp
      from Cons.IH [OF this] show ?thesis by auto
    next
      case (Done e)
      with Cons.prems Some p show ?thesis by auto
    next
      case SendOnClosed
      with Cons.prems Some p show ?thesis by auto
    qed
  qed
qed

section \<open>The example scenario, evaluated\<close>

lemma example_topic1: "subscribers example_registry ''topic1'' = Some {1, 2}"
  by (auto simp: example_registry_def New_def Let_def)



lemma ready_visits_once: "visits_once ready_runtime {1, 2}"
  by (auto simp: visits_once_def ready_runtime_def)

lemma unread_visits_once: "visits_once unread_runtime {1, 2}"
  by (auto simp: visits_once_def unread_runtime_def)









lemma Publish_registry:
  "Publish rt ctx key msg w = Some (w', r) \<Longrightarrow> registry w' = registry w"
  by (auto simp: Publish_def split: option.splits dest: publish_loop_registry)

lemma example_publish_ready:
  "Publish ready_runtime NeverDone ''topic1'' ''hello'' example_world =
     Some (example_world\<lparr>received := (received example_world)(1 := [''hello''], 2 := [''hello''])\<rparr>,
           Returns (2, None))"
  by (simp add: Publish_def example_world_def example_topic1 ready_runtime_def select_send_ready)

lemma example_publish_unread:
  "Publish unread_runtime (DoneAt 10 DeadlineExceeded) ''topic1'' ''msg'' example_world =
     Some (example_world\<lparr>received := (received example_world)(1 := [''msg'']), now := 10\<rparr>,
           Returns (1, Some DeadlineExceeded))"
proof -
  have "select_send unread_runtime (DoneAt 10 DeadlineExceeded) 2 0 = Some (max 10 0, Done DeadlineExceeded)"
    by (rule select_send_done) (simp add: unread_runtime_def)
  moreover have "select_send unread_runtime (DoneAt 10 DeadlineExceeded) 1 0 = Some (0, Sent)"
    by (rule select_send_ready) (simp_all add: unread_runtime_def)
  moreover have "range_order unread_runtime {1, 2} = [1, 2]"
    by (simp add: unread_runtime_def)
  ultimately show ?thesis
    by (simp add: Publish_def example_world_def example_topic1)
qed

section \<open>Claims about Publish\<close>

text \<open>
  Claim C1 (fan-out completeness under no cancellation). For a key with \<open>N\<close> subscribed
  endpoints, every message and every cancellation that never fires: if each endpoint is
  ready to accept, \<^verbatim>\<open>Publish\<close> returns \<open>(N, nil)\<close> and each of the \<open>N\<close> endpoints
  receives the message exactly once (and no other endpoint receives anything).
\<close>

theorem publish_fan_out_complete:
  assumes "subscribers (registry w) key = Some subs"
    and "visits_once rt subs"
    and "\<forall>ch\<in>subs. \<forall>t. now w \<le> t \<longrightarrow> chan_state rt ch t = Ready"
    and "\<forall>t. now w \<le> t \<longrightarrow> ctx_Err ctx t = None"
  shows "\<exists>w'. Publish rt ctx key msg w = Some (w', Returns (card subs, None)) \<and>
           (\<forall>ch. received w' ch = received w ch @ (if ch \<in> subs then [msg] else []))"
proof -
  let ?xs = "range_order rt subs"
  let ?w' = "w\<lparr>received := deliver msg ?xs (received w)\<rparr>"
  from assms(2) have xs: "distinct ?xs" "set ?xs = subs"
    by (simp_all add: visits_once_def)
  have "publish_loop rt ctx msg (?xs @ []) 0 w = publish_loop rt ctx msg [] (0 + length ?xs) ?w'"
    by (rule publish_loop_ready_prefix) (use assms(3,4) xs in auto)
  moreover have "length ?xs = card subs"
    using xs distinct_card by fastforce
  ultimately have "Publish rt ctx key msg w = Some (?w', Returns (card subs, None))"
    using assms(1) by (simp add: Publish_def)
  moreover have "\<forall>ch. received ?w' ch = received w ch @ (if ch \<in> subs then [msg] else [])"
    using xs by (simp add: deliver_distinct)
  ultimately show ?thesis by blast
qed

theorem publish_fan_out_complete_witness:
  "\<exists>w'. Publish ready_runtime NeverDone ''topic1'' ''hello'' example_world =
           Some (w', Returns (2, None)) \<and>
         received w' 1 = [''hello''] \<and> received w' 2 = [''hello'']"
proof -
  have 1: "subscribers (registry example_world) ''topic1'' = Some {1, 2}"
    by (simp add: example_world_def example_topic1)
  have 3: "\<forall>ch\<in>{1, 2}. \<forall>t. now example_world \<le> t \<longrightarrow> chan_state ready_runtime ch t = Ready"
    by (simp add: ready_runtime_def)
  have 4: "\<forall>t. now example_world \<le> t \<longrightarrow> ctx_Err NeverDone t = None"
    by simp
  from publish_fan_out_complete [OF 1 ready_visits_once 3 4, of "''hello''"]
  obtain w' where "Publish ready_runtime NeverDone ''topic1'' ''hello'' example_world =
       Some (w', Returns (card {1::nat, 2}, None))"
     and "\<forall>ch. received w' ch = received example_world ch @ (if ch \<in> {1, 2} then [''hello''] else [])"
    by blast
  then show ?thesis by (auto simp: example_world_def)
qed






section \<open>Claims about Subscribe and Unsubscribe\<close>







section \<open>Further claims about Publish\<close>

text \<open>
  Claim C7 (PublishWithTimeout is pure composition). For every key, message and
  duration, \<^verbatim>\<open>PublishWithTimeout\<close> returns, and does, exactly what \<^verbatim>\<open>Publish\<close> returns
  and does with a cancellation that fires once the duration has elapsed from the start
  of the call.
\<close>

theorem publish_with_timeout_delegates:
  "PublishWithTimeout rt key msg timeout w = Publish rt (fires_after (now w) timeout) key msg w"
  by (simp add: PublishWithTimeout_def WithTimeout_def Background_def fires_after_def)

theorem publish_with_timeout_delegates_witness:
  "PublishWithTimeout unread_runtime ''topic1'' ''msg'' 10 example_world =
     Some (example_world\<lparr>received := (received example_world)(1 := [''msg'']), now := 10\<rparr>,
           Returns (1, Some DeadlineExceeded))"
proof -
  have "fires_after (now example_world) 10 = DoneAt 10 DeadlineExceeded"
    by (simp add: fires_after_def example_world_def)
  with publish_with_timeout_delegates [of unread_runtime "''topic1''" "''msg''" 10 example_world]
  show ?thesis by (simp add: example_publish_unread)
qed

text \<open>
  Claim C9 (nil error exactly on full delivery). Whenever \<^verbatim>\<open>Publish\<close> returns, its error
  is nil if and only if the returned count equals the number of endpoints subscribed to
  the key (0 for an absent key), and non-nil if and only if the count is strictly smaller.
\<close>

theorem publish_error_iff_partial:
  assumes "Publish rt ctx key msg w = Some (w', Returns (n, err))"
    and "\<forall>subs. subscribers (registry w) key = Some subs \<longrightarrow> visits_once rt subs"
  shows "(err = None \<longleftrightarrow> n = card (subs_of (registry w) key)) \<and>
         (err \<noteq> None \<longleftrightarrow> n < card (subs_of (registry w) key))"
proof (cases "subscribers (registry w) key")
  case None
  with assms(1) show ?thesis by (simp add: Publish_def subs_of_def)
next
  case (Some subs)
  with assms(2) have "distinct (range_order rt subs)" "set (range_order rt subs) = subs"
    by (simp_all add: visits_once_def)
  then have len: "length (range_order rt subs) = card subs"
    using distinct_card by fastforce
  from assms(1) Some have "publish_loop rt ctx msg (range_order rt subs) 0 w = Some (w', Returns (n, err))"
    by (simp add: Publish_def)
  from publish_loop_count [OF this] len Some show ?thesis
    by (auto simp: subs_of_def)
qed

theorem publish_error_iff_partial_witness:
  "Publish unread_runtime (DoneAt 10 DeadlineExceeded) ''topic1'' ''msg'' example_world =
     Some (example_world\<lparr>received := (received example_world)(1 := [''msg'']), now := 10\<rparr>,
           Returns (1, Some DeadlineExceeded)) \<and>
   1 < card (subs_of (registry example_world) ''topic1'') \<and>
   Publish ready_runtime NeverDone ''topic1'' ''hello'' example_world =
     Some (example_world\<lparr>received := (received example_world)(1 := [''hello''], 2 := [''hello''])\<rparr>,
           Returns (2, None)) \<and>
   2 = card (subs_of (registry example_world) ''topic1'')"
proof -
  have u: "\<forall>subs. subscribers (registry example_world) ''topic1'' = Some subs \<longrightarrow>
             visits_once unread_runtime subs"
    using unread_visits_once by (simp add: example_world_def example_topic1)
  have r: "\<forall>subs. subscribers (registry example_world) ''topic1'' = Some subs \<longrightarrow>
             visits_once ready_runtime subs"
    using ready_visits_once by (simp add: example_world_def example_topic1)
  from publish_error_iff_partial [OF example_publish_unread u]
  have "1 < card (subs_of (registry example_world) ''topic1'')" by simp
  moreover from publish_error_iff_partial [OF example_publish_ready r]
  have "2 = card (subs_of (registry example_world) ''topic1'')" by simp
  ultimately show ?thesis
    using example_publish_unread example_publish_ready by (intro conjI)
qed

text \<open>
  Claim C10 (Publish does not mutate the registry). Whatever way a call of \<^verbatim>\<open>Publish\<close>
  ends (full delivery, absent key, cancellation partway, panic), the index after the
  call is the index before it.
\<close>

theorem publish_preserves_registry:
  assumes "Publish rt ctx key msg w = Some (w', r)"
  shows "registry w' = registry w"
  using assms by (rule Publish_registry)

theorem publish_preserves_registry_witness:
  "Publish unread_runtime (DoneAt 10 DeadlineExceeded) ''topic1'' ''msg'' example_world =
     Some (example_world\<lparr>received := (received example_world)(1 := [''msg'']), now := 10\<rparr>,
           Returns (1, Some DeadlineExceeded)) \<and>
   registry (example_world\<lparr>received := (received example_world)(1 := [''msg'']), now := 10\<rparr>) =
     example_registry"
proof -
  from publish_preserves_registry [OF example_publish_unread]
  have "registry (example_world\<lparr>received := (received example_world)(1 := [''msg'']), now := 10\<rparr>) =
     registry example_world" .
  then show ?thesis
    using example_publish_unread by (simp add: example_world_def)
qed

end
